theory Spec2Isabelle
  imports Complex_Main "HOL-Library.Log_Nat"
begin

section \<open>JavaScript numbers\<close>

text \<open>
  The development embeds \<^verbatim>\<open>exchanges/retry/src/retryExchange.ts\<close>. Every number of the
  source is an IEEE 754 double. A finite double is modelled by its value, a rational;
  sums, differences and products are computed exactly and then rounded to the nearest
  double, ties to the even significand.

  \<open>round_half_even t\<close> is the integer nearest to \<open>t\<close>, the even one of the two at a tie.
\<close>

definition round_half_even :: "rat \<Rightarrow> int" where
  "round_half_even t =
     (let f = \<lfloor>t\<rfloor>; d = t - of_int f
      in if d < 1 / 2 then f else if 1 / 2 < d then f + 1 else if even f then f else f + 1)"

text \<open>
  \<open>expo x\<close> is the binary exponent of \<open>x \<noteq> 0\<close>, the \<open>e\<close> with \<open>2 powi e \<le> \<bar>x\<bar>\<close> and
  \<open>\<bar>x\<bar> < 2 powi (e + 1)\<close>; it is found from the bit lengths of numerator and denominator.
  \<open>quantum x\<close> is the spacing of the doubles around \<open>x\<close>: 53 significant bits, and never
  finer than \<open>2 powi (- 1074)\<close>, the spacing of the subnormal doubles.
\<close>

definition expo :: "rat \<Rightarrow> int" where
  "expo x =
     (case quotient_of \<bar>x\<bar> of (p, q) \<Rightarrow>
        let d = bitlen p - bitlen q
        in if 2 powi d \<le> \<bar>x\<bar> then d else d - 1)"

definition quantum :: "rat \<Rightarrow> rat" where
  "quantum x = 2 powi (max (expo x - 52) (- 1074))"

definition rnd :: "rat \<Rightarrow> rat" where
  "rnd x = of_int (round_half_even (x / quantum x)) * quantum x"

text \<open>
  A rounded value of magnitude \<open>2 ^ 1024\<close> or more is no finite double. The finite doubles
  are the values \<open>finite_double\<close> takes. \<open>double_of x\<close> is the double nearest to \<open>x\<close>, for
  an \<open>x\<close> that rounds to a finite double, and \<open>val\<close> is the value of a double.
\<close>

definition finite_double :: "rat \<Rightarrow> rat" where
  "finite_double x = (if \<bar>rnd x\<bar> < 2 ^ 1024 then rnd x else 0)"

typedef double = "range finite_double"
  by blast

setup_lifting type_definition_double

lift_definition double_of :: "rat \<Rightarrow> double" is finite_double
  by simp

lift_definition val :: "double \<Rightarrow> rat" is "\<lambda>x. x" .

instantiation double :: equal
begin

definition equal_double :: "double \<Rightarrow> double \<Rightarrow> bool" where
  "equal_double a b \<longleftrightarrow> val a = val b"

instance
  by standard (simp add: equal_double_def val.rep_eq Rep_double_inject)

end

text \<open>
  A number is \<^verbatim>\<open>NaN\<close>, an infinity (\<open>Infinity True\<close> is the positive one) or a finite
  double. The two zeros of IEEE 754 are one value here: the source only tests numbers
  for truthiness, adds, subtracts, multiplies and compares them, and none of these tells
  the zeros apart.
\<close>

datatype number = NaN | Infinity bool | Fin double

text \<open>The number a real result rounds to; overflow gives the infinity of its sign.\<close>

definition number_of :: "rat \<Rightarrow> number" where
  "number_of x = (if \<bar>rnd x\<bar> < 2 ^ 1024 then Fin (double_of x) else Infinity (0 < x))"

text \<open>\<^verbatim>\<open>a + b\<close>, \<^verbatim>\<open>a - b\<close>, \<^verbatim>\<open>a * b\<close>, \<^verbatim>\<open>a < b\<close> and \<^verbatim>\<open>a >= b\<close> on numbers.\<close>

fun num_add :: "number \<Rightarrow> number \<Rightarrow> number" where
  "num_add (Fin x) (Fin y) = number_of (val x + val y)"
| "num_add (Infinity s) (Infinity t) = (if s = t then Infinity s else NaN)"
| "num_add (Infinity s) (Fin y) = Infinity s"
| "num_add (Fin x) (Infinity t) = Infinity t"
| "num_add _ _ = NaN"

fun num_sub :: "number \<Rightarrow> number \<Rightarrow> number" where
  "num_sub (Fin x) (Fin y) = number_of (val x - val y)"
| "num_sub (Infinity s) (Infinity t) = (if s = t then NaN else Infinity s)"
| "num_sub (Infinity s) (Fin y) = Infinity s"
| "num_sub (Fin x) (Infinity t) = Infinity (\<not> t)"
| "num_sub _ _ = NaN"

fun num_mul :: "number \<Rightarrow> number \<Rightarrow> number" where
  "num_mul (Fin x) (Fin y) = number_of (val x * val y)"
| "num_mul (Infinity s) (Infinity t) = Infinity (s = t)"
| "num_mul (Infinity s) (Fin y) = (if val y = 0 then NaN else Infinity (s = (0 < val y)))"
| "num_mul (Fin x) (Infinity t) = (if val x = 0 then NaN else Infinity (t = (0 < val x)))"
| "num_mul _ _ = NaN"

fun num_less :: "number \<Rightarrow> number \<Rightarrow> bool" where
  "num_less (Fin x) (Fin y) = (val x < val y)"
| "num_less (Infinity s) (Infinity t) = (\<not> s \<and> t)"
| "num_less (Infinity s) (Fin y) = (\<not> s)"
| "num_less (Fin x) (Infinity t) = t"
| "num_less _ _ = False"

fun num_ge :: "number \<Rightarrow> number \<Rightarrow> bool" where
  "num_ge (Fin x) (Fin y) = (val y \<le> val x)"
| "num_ge (Infinity s) (Infinity t) = (s \<or> \<not> t)"
| "num_ge (Infinity s) (Fin y) = s"
| "num_ge (Fin x) (Infinity t) = (\<not> t)"
| "num_ge _ _ = False"

text \<open>A number is falsy when it is zero or \<^verbatim>\<open>NaN\<close>.\<close>

fun truthy :: "number \<Rightarrow> bool" where
  "truthy (Fin x) = (val x \<noteq> 0)"
| "truthy (Infinity s) = True"
| "truthy NaN = False"

section \<open>The retry exchange: data model\<close>

text \<open>
  An optional field (\<^verbatim>\<open>field?: T\<close>) or a possibly missing entry of the context object is
  an \<open>option\<close>, with \<open>None\<close> for \<^verbatim>\<open>undefined\<close>.
\<close>

datatype OperationType = Query | Mutation | Subscription | Teardown

text \<open>
  The two entries of \<^verbatim>\<open>operation.context\<close> that the exchange reads and writes, and
  one field standing for everything else the caller stored there.
\<close>

record OperationContext =
  retryCount :: "number option"
  retryDelay :: "number option"
  meta :: string

record Operation =
  key :: int
  operationName :: OperationType
  ctx :: OperationContext

record CombinedError =
  networkError :: "string option"
  graphQLErrors :: "string list"

record OperationResult =
  operation :: Operation
  data :: "string option"
  error :: "CombinedError option"

record RetryExchangeOptions =
  initialDelayMs :: "number option"
  maxDelayMs :: "number option"
  randomDelay :: "bool option"
  maxNumberAttempts :: "number option"
  retryIfOption :: "(CombinedError \<Rightarrow> bool) option"

section \<open>Configuration defaults\<close>

text \<open>
  \<^verbatim>\<open>x || d\<close> yields \<open>d\<close> when \<open>x\<close> is \<^verbatim>\<open>undefined\<close> or any other falsy value, and
  \<open>x\<close> otherwise. The first argument says which defined values are truthy: a number
  other than zero and \<^verbatim>\<open>NaN\<close>, the boolean \<^verbatim>\<open>true\<close>, every function.
\<close>

definition js_or :: "('a \<Rightarrow> bool) \<Rightarrow> 'a option \<Rightarrow> 'a \<Rightarrow> 'a" where
  "js_or truthy_value x d = (case x of None \<Rightarrow> d | Some v \<Rightarrow> if truthy_value v then v else d)"

definition MIN_DELAY :: "RetryExchangeOptions \<Rightarrow> number" where
  "MIN_DELAY opts = js_or truthy (initialDelayMs opts) (number_of 1000)"

definition MAX_DELAY :: "RetryExchangeOptions \<Rightarrow> number" where
  "MAX_DELAY opts = js_or truthy (maxDelayMs opts) (number_of 15000)"

definition MAX_ATTEMPTS :: "RetryExchangeOptions \<Rightarrow> number" where
  "MAX_ATTEMPTS opts = js_or truthy (maxNumberAttempts opts) (number_of 2)"

definition RANDOM_DELAY :: "RetryExchangeOptions \<Rightarrow> bool" where
  "RANDOM_DELAY opts = js_or (\<lambda>b. b) (randomDelay opts) True"

text \<open>
  The default predicate \<^verbatim>\<open>err => err && err.networkError\<close> is only called on a defined
  error and is read as a boolean by its caller: it holds when a network error is present.
\<close>

definition retryIf :: "RetryExchangeOptions \<Rightarrow> CombinedError \<Rightarrow> bool" where
  "retryIf opts = js_or (\<lambda>f. True) (retryIfOption opts) (\<lambda>err. networkError err \<noteq> None)"

section \<open>The backoff path\<close>

text \<open>
  \<^verbatim>\<open>Math.random()\<close> returns a finite double \<open>r\<close> with \<open>0 \<le> r < 1\<close>; the draw is an
  argument of the model. \<^verbatim>\<open>Math.random() + 1.5\<close> is a sum of doubles.
\<close>

definition backoffFactor :: "double \<Rightarrow> number" where
  "backoffFactor r = num_add (Fin r) (number_of (3 / 2))"

text \<open>\<^verbatim>\<open>context.retryCount || 0\<close>, the number of retries an operation has behind it.\<close>

definition attempts :: "Operation \<Rightarrow> number" where
  "attempts op = js_or truthy (retryCount (ctx op)) (number_of 0)"

text \<open>\<^verbatim>\<open>context.retryDelay || MIN_DELAY\<close>, the value \<^verbatim>\<open>delayAmount\<close> starts with.\<close>

definition previousDelay :: "RetryExchangeOptions \<Rightarrow> Operation \<Rightarrow> number" where
  "previousDelay opts op = js_or truthy (retryDelay (ctx op)) (MIN_DELAY opts)"

text \<open>The value of \<^verbatim>\<open>delayAmount\<close> after the conditional scaling.\<close>

definition delayAmount :: "RetryExchangeOptions \<Rightarrow> double \<Rightarrow> Operation \<Rightarrow> number" where
  "delayAmount opts r op =
     (if RANDOM_DELAY opts
         \<and> num_less (num_mul (previousDelay opts op) (backoffFactor r)) (MAX_DELAY opts)
      then num_mul (previousDelay opts op) (backoffFactor r)
      else previousDelay opts op)"

text \<open>
  The operation that is re-submitted: a copy of \<open>op\<close> whose context has the new
  \<^verbatim>\<open>retryDelay\<close> and \<^verbatim>\<open>retryCount\<close>, the latter \<^verbatim>\<open>(context.retryCount || 0) + 1\<close>.
\<close>

definition retryOperation :: "RetryExchangeOptions \<Rightarrow> double \<Rightarrow> Operation \<Rightarrow> Operation" where
  "retryOperation opts r op =
     op\<lparr>ctx := (ctx op)\<lparr>retryDelay := Some (delayAmount opts r op),
                          retryCount := Some (num_add (attempts op) (number_of 1))\<rparr>\<rparr>"

text \<open>
  The filter of \<^verbatim>\<open>teardown$\<close>: an inbound operation supersedes a pending retry of
  key \<open>k\<close> when it is a query or a teardown of that key.
\<close>

definition teardown_match :: "int \<Rightarrow> Operation \<Rightarrow> bool" where
  "teardown_match k op =
     ((operationName op = Query \<or> operationName op = Teardown) \<and> key op = k)"

section \<open>The exchange as a transition system\<close>

text \<open>
  The stream combinators come from the library \<^verbatim>\<open>wonka\<close>; the exchange composes them into
  a single-threaded, event-driven pipeline. The model is its transition function. An
  event is one of the three things that can happen to the pipeline:
  \<^item> \<open>Inbound op\<close>: \<^verbatim>\<open>ops$\<close> pushes an operation. \<^verbatim>\<open>sharedOps$\<close> delivers it first to the
    merge that feeds \<^verbatim>\<open>forward\<close> (subscribed first) and then to the \<^verbatim>\<open>teardown$\<close>
    filter of every retry that is waiting; \<^verbatim>\<open>takeUntil\<close> ends a waiting retry at the first
    operation its filter lets through.
  \<^item> \<open>Response res\<close>: \<^verbatim>\<open>forward\<close> pushes a result, which meets the filter of \<^verbatim>\<open>result$\<close>.
    A call of \<^verbatim>\<open>nextRetryOperation\<close> runs the \<^verbatim>\<open>mergeMap\<close> callback at once.
  \<^item> \<open>Elapsed i\<close>: the timer that \<^verbatim>\<open>delay\<close> started for the retry \<open>i\<close> fires. If the retry
    is still waiting, its operation enters the merge that feeds \<^verbatim>\<open>forward\<close>; it does
    not pass through \<^verbatim>\<open>sharedOps$\<close>.
  The order of the events is chosen by the environment. What the pipeline does in
  response is a list of actions, in the order they happen.

  A debug event is its type, its operation and, for \<^verbatim>\<open>retryAttempt\<close>, the count in
  \<^verbatim>\<open>data.retryCount\<close>; the message text, which repeats that count and
  \<^verbatim>\<open>MAX_ATTEMPTS\<close>, is left out.
\<close>

datatype DebugEvent =
    retryAttempt Operation number
  | retryExhausted Operation

datatype Event =
    Inbound Operation
  | Response OperationResult
  | Elapsed nat

datatype Action =
    Forward Operation
  | Emit OperationResult
  | DispatchDebug DebugEvent
  | SetTimeout nat number

text \<open>
  A retry that waits for its delay: the timer, the \<^verbatim>\<open>key\<close> captured by its
  \<^verbatim>\<open>teardown$\<close> filter, and the operation \<^verbatim>\<open>fromValue\<close> holds.
\<close>

record PendingRetry =
  timer :: nat
  watchKey :: int
  held :: Operation

record State =
  pending :: "PendingRetry list"
  nextTimer :: nat
  drawn :: nat

definition init :: State where
  "init = \<lparr>pending = [], nextTimer = 0, drawn = 0\<rparr>"

text \<open>
  The \<^verbatim>\<open>mergeMap\<close> callback of \<^verbatim>\<open>retryWithBackoff$\<close>, run by \<^verbatim>\<open>nextRetryOperation(op)\<close>.
  \<open>rand\<close> is the sequence of values \<^verbatim>\<open>Math.random()\<close> returns, \<open>drawn\<close> counts the calls.
\<close>

definition nextRetryOperation ::
  "RetryExchangeOptions \<Rightarrow> (nat \<Rightarrow> double) \<Rightarrow> State \<Rightarrow> Operation \<Rightarrow> State \<times> Action list" where
  "nextRetryOperation opts rand st op =
     (let r = rand (drawn st) in
      (st\<lparr>pending := pending st @
             [\<lparr>timer = nextTimer st, watchKey = key op, held = retryOperation opts r op\<rparr>],
          nextTimer := Suc (nextTimer st),
          drawn := Suc (drawn st)\<rparr>,
       [DispatchDebug (retryAttempt op (num_add (attempts op) (number_of 1))),
        SetTimeout (nextTimer st) (delayAmount opts r op)]))"

text \<open>
  The filter callback of \<^verbatim>\<open>result$\<close>: whether the result is kept, with the state and
  the actions of its side effects.
\<close>

definition result_filter ::
  "RetryExchangeOptions \<Rightarrow> (nat \<Rightarrow> double) \<Rightarrow> State \<Rightarrow> OperationResult
     \<Rightarrow> bool \<times> State \<times> Action list" where
  "result_filter opts rand st res =
     (case error res of
        None \<Rightarrow> (True, st, [])
      | Some e \<Rightarrow>
          if \<not> retryIf opts e then (True, st, [])
          else
            let maxNumberAttemptsExceeded =
                  num_ge (attempts (operation res)) (num_sub (MAX_ATTEMPTS opts) (number_of 1)) in
            if \<not> maxNumberAttemptsExceeded then
              (case nextRetryOperation opts rand st (operation res) of
                 (st', acts) \<Rightarrow> (False, st', acts))
            else (True, st, [DispatchDebug (retryExhausted (operation res))]))"

fun step ::
  "RetryExchangeOptions \<Rightarrow> (nat \<Rightarrow> double) \<Rightarrow> State \<Rightarrow> Event \<Rightarrow> State \<times> Action list" where
  "step opts rand st (Inbound op) =
     (st\<lparr>pending := filter (\<lambda>p. \<not> teardown_match (watchKey p) op) (pending st)\<rparr>,
      [Forward op])"
| "step opts rand st (Response res) =
     (case result_filter opts rand st res of
        (keep, st', acts) \<Rightarrow> (st', acts @ (if keep then [Emit res] else [])))"
| "step opts rand st (Elapsed i) =
     (case find (\<lambda>p. timer p = i) (pending st) of
        None \<Rightarrow> (st, [])
      | Some p \<Rightarrow> (st\<lparr>pending := filter (\<lambda>q. timer q \<noteq> i) (pending st)\<rparr>, [Forward (held p)]))"

fun run ::
  "RetryExchangeOptions \<Rightarrow> (nat \<Rightarrow> double) \<Rightarrow> State \<Rightarrow> Event list \<Rightarrow> State \<times> Action list" where
  "run opts rand st [] = (st, [])"
| "run opts rand st (ev # evs) =
     (case step opts rand st ev of
        (st', acts) \<Rightarrow>
          (case run opts rand st' evs of (st'', acts') \<Rightarrow> (st'', acts @ acts')))"

text \<open>
  In a state the pipeline can reach, the waiting retries have different timers, all
  started earlier, and each watches the key of the operation it holds.
\<close>

definition well_timed :: "State \<Rightarrow> bool" where
  "well_timed st =
     (distinct (map timer (pending st))
      \<and> (\<forall>p \<in> set (pending st). timer p < nextTimer st \<and> watchKey p = key (held p)))"


section \<open>Sample configurations, operations and results\<close>

definition noOptions :: RetryExchangeOptions where
  "noOptions = \<lparr>initialDelayMs = None, maxDelayMs = None, randomDelay = None,
                 maxNumberAttempts = None, retryIfOption = None\<rparr>"

definition jitterOffOptions :: RetryExchangeOptions where
  "jitterOffOptions = \<lparr>initialDelayMs = Some (number_of 100), maxDelayMs = Some (number_of 1000),
                        randomDelay = Some False, maxNumberAttempts = Some (number_of 3),
                        retryIfOption = None\<rparr>"

definition attemptsOptions :: "rat \<Rightarrow> RetryExchangeOptions" where
  "attemptsOptions n = noOptions\<lparr>maxNumberAttempts := Some (number_of n)\<rparr>"

definition draw :: "rat \<Rightarrow> nat \<Rightarrow> double" where
  "draw x n = double_of x"

definition queryOp :: "int \<Rightarrow> Operation" where
  "queryOp k = \<lparr>key = k, operationName = Query,
                ctx = \<lparr>retryCount = None, retryDelay = None, meta = ''url''\<rparr>\<rparr>"

definition teardownOp :: "int \<Rightarrow> Operation" where
  "teardownOp k = \<lparr>key = k, operationName = Teardown,
                   ctx = \<lparr>retryCount = None, retryDelay = None, meta = ''url''\<rparr>\<rparr>"

definition retried :: "rat \<Rightarrow> rat \<Rightarrow> Operation \<Rightarrow> Operation" where
  "retried n d op =
     op\<lparr>ctx := (ctx op)\<lparr>retryDelay := Some (number_of d), retryCount := Some (number_of n)\<rparr>\<rparr>"

definition success :: "Operation \<Rightarrow> OperationResult" where
  "success op = \<lparr>operation = op, data = Some ''payload'', error = None\<rparr>"

definition networkFailure :: "Operation \<Rightarrow> OperationResult" where
  "networkFailure op =
     \<lparr>operation = op, data = None,
      error = Some \<lparr>networkError = Some ''offline'', graphQLErrors = []\<rparr>\<rparr>"

definition remoteFailure :: "Operation \<Rightarrow> OperationResult" where
  "remoteFailure op =
     \<lparr>operation = op, data = None,
      error = Some \<lparr>networkError = None, graphQLErrors = [''denied'']\<rparr>\<rparr>"

lemmas sample_defs =
  noOptions_def jitterOffOptions_def attemptsOptions_def draw_def queryOp_def teardownOp_def
  retried_def success_def networkFailure_def remoteFailure_def

lemmas config_defs =
  js_or_def MIN_DELAY_def MAX_DELAY_def MAX_ATTEMPTS_def RANDOM_DELAY_def retryIf_def

lemmas backoff_defs =
  backoffFactor_def attempts_def previousDelay_def delayAmount_def retryOperation_def
  teardown_match_def

lemmas exchange_defs =
  init_def nextRetryOperation_def result_filter_def

section \<open>Rounding\<close>

lemma round_half_even_ge: "of_int k \<le> t \<Longrightarrow> k \<le> round_half_even t"
proof -
  assume "of_int k \<le> t"
  then have "k \<le> \<lfloor>t\<rfloor>" by (simp add: le_floor_iff)
  then show ?thesis by (simp add: round_half_even_def Let_def)
qed

lemma round_half_even_le: "t \<le> of_int k \<Longrightarrow> round_half_even t \<le> k"
proof (cases "t = of_int k")
  case True
  then show ?thesis by (simp add: round_half_even_def Let_def)
next
  case False
  assume "t \<le> of_int k"
  with False have "t < of_int k" by simp
  then have "\<lfloor>t\<rfloor> < k" by (simp add: floor_less_iff)
  then show ?thesis by (simp add: round_half_even_def Let_def)
qed

lemma round_half_even_of_int [simp]: "round_half_even (of_int k) = k"
  by (simp add: round_half_even_def)

lemma expo_bounds:
  assumes "x \<noteq> 0"
  shows "2 powi expo x \<le> \<bar>x\<bar> \<and> \<bar>x\<bar> < 2 powi (expo x + 1)"
proof -
  obtain p q where pq: "quotient_of \<bar>x\<bar> = (p, q)" by (cases "quotient_of \<bar>x\<bar>")
  then have q: "0 < q" and x: "\<bar>x\<bar> = of_int p / of_int q"
    by (simp_all add: quotient_of_denom_pos quotient_of_div)
  from assms have "0 < \<bar>x\<bar>" by simp
  with x q have p: "0 < p"
    by (simp add: zero_less_divide_iff)
  let ?d = "bitlen p - bitlen q"
  from bitlen_bounds [OF p] have "p < 2 ^ nat (bitlen p)" by simp
  then have "(of_int p :: rat) < 2 ^ nat (bitlen p)"
    by (metis of_int_less_iff of_int_numeral of_int_power)
  then have pu: "(of_int p :: rat) < 2 powi bitlen p"
    by (simp add: power_int_nonneg_exp bitlen_nonneg)
  from bitlen_bounds [OF q] have "2 ^ nat (bitlen q - 1) \<le> q" by simp
  then have "(2 :: rat) ^ nat (bitlen q - 1) \<le> of_int q"
    by (metis of_int_le_iff of_int_numeral of_int_power)
  moreover from q have "1 \<le> bitlen q"
    using bitlen_eq_zero_iff [of q] bitlen_nonneg [of q] by linarith
  ultimately have ql: "(2 :: rat) powi (bitlen q - 1) \<le> of_int q"
    by (simp add: power_int_nonneg_exp)
  have "\<bar>x\<bar> < 2 powi bitlen p / 2 powi (bitlen q - 1)"
    unfolding x using pu ql q p
    by (intro frac_less) simp_all
  also have "\<dots> = 2 powi (bitlen p - (bitlen q - 1))"
    by (simp only: power_int_diff [of "2::rat", simplified])
  also have "bitlen p - (bitlen q - 1) = ?d + 1" by simp
  finally have upper: "\<bar>x\<bar> < 2 powi (?d + 1)" .
  from bitlen_bounds [OF q] have "q < 2 ^ nat (bitlen q)" by simp
  then have "(of_int q :: rat) < 2 ^ nat (bitlen q)"
    by (metis of_int_less_iff of_int_numeral of_int_power)
  then have qu: "(of_int q :: rat) < 2 powi bitlen q"
    by (simp add: power_int_nonneg_exp bitlen_nonneg)
  from bitlen_bounds [OF p] have "2 ^ nat (bitlen p - 1) \<le> p" by simp
  then have "(2 :: rat) ^ nat (bitlen p - 1) \<le> of_int p"
    by (metis of_int_le_iff of_int_numeral of_int_power)
  moreover from p have "1 \<le> bitlen p"
    using bitlen_eq_zero_iff [of p] bitlen_nonneg [of p] by linarith
  ultimately have pl: "(2 :: rat) powi (bitlen p - 1) \<le> of_int p"
    by (simp add: power_int_nonneg_exp)
  have "2 powi (bitlen p - 1) / 2 powi bitlen q < \<bar>x\<bar>"
    unfolding x using pl qu q p
    by (intro frac_less2) simp_all
  moreover have "(2 :: rat) powi (bitlen p - 1) / 2 powi bitlen q =
      2 powi (bitlen p - 1 - bitlen q)"
    by (simp only: power_int_diff [of "2::rat", simplified])
  moreover have "bitlen p - 1 - bitlen q = ?d - 1" by simp
  ultimately have lower: "2 powi (?d - 1) < \<bar>x\<bar>" by simp
  show ?thesis
  proof (cases "2 powi ?d \<le> \<bar>x\<bar>")
    case True
    with upper pq show ?thesis by (simp add: expo_def Let_def)
  next
    case False
    with lower pq show ?thesis by (simp add: expo_def Let_def)
  qed
qed

lemma two_powi_less_iff: "(2::rat) powi m < 2 powi n \<longleftrightarrow> m < n"
proof
  assume lt: "(2::rat) powi m < 2 powi n"
  show "m < n"
  proof (rule ccontr)
    assume "\<not> m < n"
    then have "(2::rat) powi n \<le> 2 powi m"
      by (intro power_int_increasing) simp_all
    with lt show False by simp
  qed
next
  assume "m < n"
  then show "(2::rat) powi m < 2 powi n"
    by (intro power_int_strict_increasing) simp_all
qed

lemma two_powi_le_iff: "(2::rat) powi m \<le> 2 powi n \<longleftrightarrow> m \<le> n"
  using two_powi_less_iff [of n m] by (simp add: not_less [symmetric])

lemma expo_eqI:
  assumes "2 powi e \<le> \<bar>x\<bar>" and "\<bar>x\<bar> < 2 powi (e + 1)"
  shows "expo x = e"
proof -
  from assms(1) have "0 < \<bar>x\<bar>"
    using zero_less_power_int [of "2::rat" e] by linarith
  then have nz: "x \<noteq> 0" by simp
  note b = expo_bounds [OF nz]
  from b assms(2) have "(2::rat) powi expo x < 2 powi (e + 1)" by linarith
  then have "expo x < e + 1"
    by (simp add: two_powi_less_iff)
  moreover from b assms(1) have "(2::rat) powi e < 2 powi (expo x + 1)" by linarith
  then have "e < expo x + 1"
    by (simp add: two_powi_less_iff)
  ultimately show ?thesis by simp
qed


lemma quantum_pos [simp]: "0 < quantum x"
  by (simp add: quantum_def)

lemma quantum_nonneg [simp]: "0 \<le> quantum x"
  by (simp add: quantum_def)

lemma abs_quantum [simp]: "\<bar>quantum x\<bar> = quantum x"
  by (simp add: quantum_def)

lemma quantum_min: "2 powi (- 1074) \<le> quantum x"
  unfolding quantum_def by (intro power_int_increasing) simp_all

lemma rnd_ge_grid:
  assumes "of_int k * quantum x \<le> x"
  shows "of_int k * quantum x \<le> rnd x"
proof -
  from assms have "of_int k \<le> x / quantum x"
    by (simp add: pos_le_divide_eq)
  then have "k \<le> round_half_even (x / quantum x)"
    by (rule round_half_even_ge)
  then have "(of_int k :: rat) \<le> of_int (round_half_even (x / quantum x))"
    by simp
  then show ?thesis
    unfolding rnd_def by (intro mult_right_mono) simp_all
qed

lemma rnd_le_grid:
  assumes "x \<le> of_int k * quantum x"
  shows "rnd x \<le> of_int k * quantum x"
proof -
  from assms have "x / quantum x \<le> of_int k"
    by (simp add: pos_divide_le_eq)
  then have "round_half_even (x / quantum x) \<le> k"
    by (rule round_half_even_le)
  then have "(of_int (round_half_even (x / quantum x)) :: rat) \<le> of_int k"
    by simp
  then show ?thesis
    unfolding rnd_def by (intro mult_right_mono) simp_all
qed

lemma rnd_0 [simp]: "rnd 0 = 0"
  using round_half_even_of_int [of 0] by (simp add: rnd_def)

lemma quantum_fine:
  assumes "- 1074 \<le> i" and "\<bar>x\<bar> < 2 powi (i + 53)" and "x \<noteq> 0"
  shows "\<exists>n. quantum x * 2 ^ n = 2 powi i"
proof -
  let ?j = "max (expo x - 52) (- 1074)"
  have "?j \<le> i"
  proof -
    from expo_bounds [OF assms(3)] assms(2) have "(2::rat) powi expo x < 2 powi (i + 53)"
      by linarith
    then have "expo x < i + 53" by (simp add: two_powi_less_iff)
    with assms(1) show ?thesis by simp
  qed
  then have "(2::rat) powi i = 2 powi ?j * 2 powi (i - ?j)"
    by (simp flip: power_int_add)
  also from \<open>?j \<le> i\<close> have "(2::rat) powi (i - ?j) = 2 ^ nat (i - ?j)"
    by (simp add: power_int_nonneg_exp)
  finally show ?thesis
    unfolding quantum_def by (intro exI [of _ "nat (i - ?j)"]) simp
qed

lemma rnd_between:
  assumes "a = of_int k * 2 powi i" and "- 1074 \<le> i" and "\<bar>x\<bar> < 2 powi (i + 53)"
  shows "a \<le> x \<Longrightarrow> a \<le> rnd x" and "x \<le> a \<Longrightarrow> rnd x \<le> a"
proof -
  have "(a \<le> x \<longrightarrow> a \<le> rnd x) \<and> (x \<le> a \<longrightarrow> rnd x \<le> a)"
  proof (cases "x = 0")
    case True
    then show ?thesis by simp
  next
    case False
    from quantum_fine [OF assms(2,3) False]
    obtain n where n: "quantum x * 2 ^ n = 2 powi i" ..
    have a: "a = of_int (k * 2 ^ n) * quantum x"
      unfolding assms(1) n [symmetric] by simp
    show ?thesis
      unfolding a using rnd_ge_grid rnd_le_grid by blast
  qed
  then show "a \<le> x \<Longrightarrow> a \<le> rnd x" and "x \<le> a \<Longrightarrow> rnd x \<le> a"
    by simp_all
qed

lemma rnd_exact:
  assumes "x = of_int k * 2 powi i" and "- 1074 \<le> i" and "\<bar>k\<bar> < 2 ^ 53"
  shows "rnd x = x"
proof -
  from assms(3) have "(of_int \<bar>k\<bar> :: rat) < 2 ^ 53"
    by (metis of_int_less_iff of_int_numeral of_int_power)
  then have "\<bar>x\<bar> < 2 ^ 53 * 2 powi i"
    unfolding assms(1) by (simp add: abs_mult)
  also have "(2::rat) ^ 53 * 2 powi i = 2 powi (i + 53)"
    by (simp add: power_int_add)
  finally have lt: "\<bar>x\<bar> < 2 powi (i + 53)" .
  from rnd_between [OF assms(1,2) lt] show ?thesis by (simp add: antisym)
qed

lemma rnd_of_int:
  assumes "\<bar>k\<bar> \<le> 2 ^ 53"
  shows "rnd (of_int k) = of_int k"
proof (cases "\<bar>k\<bar> < 2 ^ 53")
  case True
  then show ?thesis using rnd_exact [of "of_int k" k 0] by simp
next
  case False
  with assms have "\<bar>k\<bar> = 2 ^ 53" by simp
  then have "k = 2 ^ 53 \<or> k = - (2 ^ 53)" by linarith
  then show ?thesis
  proof
    assume "k = 2 ^ 53"
    then show ?thesis using rnd_exact [of "of_int k" 1 53] by simp
  next
    assume "k = - (2 ^ 53)"
    then show ?thesis using rnd_exact [of "of_int k" "- 1" 53] by simp
  qed
qed

lemma rnd_nonzero:
  assumes "2 powi (- 1074) \<le> \<bar>x\<bar>"
  shows "rnd x \<noteq> 0"
proof -
  have "(0::rat) < 2 powi (- 1074)" by simp
  with assms have nz: "x \<noteq> 0" by auto
  have q: "quantum x \<le> \<bar>x\<bar>"
  proof (cases "expo x - 52 \<le> - 1074")
    case True
    then show ?thesis using assms by (simp add: quantum_def max_def)
  next
    case False
    then have "quantum x = 2 powi (expo x - 52)" by (simp add: quantum_def max_def)
    also have "\<dots> \<le> 2 powi expo x" by (intro power_int_increasing) simp_all
    also from expo_bounds [OF nz] have "\<dots> \<le> \<bar>x\<bar>" by simp
    finally show ?thesis .
  qed
  show ?thesis
  proof (cases "0 < x")
    case True
    with q have "of_int 1 * quantum x \<le> x" by simp
    then have "of_int 1 * quantum x \<le> rnd x" by (rule rnd_ge_grid)
    then have "0 < rnd x" using quantum_pos [of x] by linarith
    then show ?thesis by simp
  next
    case False
    with nz q have "x \<le> of_int (- 1) * quantum x" by simp
    then have "rnd x \<le> of_int (- 1) * quantum x" by (rule rnd_le_grid)
    then have "rnd x < 0" using quantum_pos [of x] by linarith
    then show ?thesis by simp
  qed
qed

lemma rnd_magnitude:
  assumes "rnd y \<noteq> 0"
  shows "2 powi (- 1074) \<le> \<bar>rnd y\<bar>"
proof -
  let ?k = "round_half_even (y / quantum y)"
  from assms have "?k \<noteq> 0" by (auto simp: rnd_def)
  then have "1 \<le> \<bar>?k\<bar>" by simp
  then have "(1::rat) \<le> of_int \<bar>?k\<bar>" by (simp only: of_int_1_le_iff)
  then have "quantum y \<le> of_int \<bar>?k\<bar> * quantum y"
    using quantum_pos [of y] by simp
  also have "\<dots> = \<bar>rnd y\<bar>" by (simp add: rnd_def abs_mult)
  finally show ?thesis using quantum_min [of y] by simp
qed


section \<open>Evaluating numbers\<close>

lemma val_double_of: "val (double_of x) = finite_double x"
  by transfer simp

lemma val_inject: "val a = val b \<longleftrightarrow> a = b"
  by transfer simp

lemma double_of_eq_iff: "double_of x = double_of y \<longleftrightarrow> finite_double x = finite_double y"
  by transfer simp

lemma rnd_numeral:
  "(numeral w :: int) \<le> 2 ^ 53 \<Longrightarrow> rnd (numeral w) = numeral w"
  "(numeral w :: int) < 2 ^ 53 \<Longrightarrow> rnd (numeral w / 2) = numeral w / 2"
  "rnd 1 = 1"
  "rnd (1 / 2) = 1 / 2"
proof -
  show "rnd (numeral w) = numeral w" if "(numeral w :: int) \<le> 2 ^ 53"
    using that rnd_of_int [of "numeral w"] by simp
  show "rnd (numeral w / 2) = numeral w / 2" if "(numeral w :: int) < 2 ^ 53"
    using that rnd_exact [of "numeral w / 2" "numeral w" "- 1"]
    by (simp add: power_int_minus_divide)
  show "rnd 1 = 1" using rnd_of_int [of 1] by simp
  show "rnd (1 / 2) = 1 / 2" using rnd_exact [of "1 / 2" 1 "- 1"] by (simp add: power_int_minus_divide)
qed

lemmas number_eval =
  number_of_def finite_double_def val_double_of double_of_eq_iff rnd_numeral

lemma number_of_not_NaN [simp]: "number_of x \<noteq> NaN"
  by (simp add: number_of_def)

lemma truthy_not_NaN: "truthy a \<Longrightarrow> a \<noteq> NaN"
  by (cases a) simp_all

lemma js_or_truthy_not_NaN: "d \<noteq> NaN \<Longrightarrow> js_or truthy x d \<noteq> NaN"
  by (auto simp: js_or_def truthy_not_NaN split: option.split)

lemma attempts_not_NaN [simp]: "attempts op \<noteq> NaN"
  by (simp add: attempts_def js_or_truthy_not_NaN)

lemma MAX_ATTEMPTS_not_NaN [simp]: "MAX_ATTEMPTS opts \<noteq> NaN"
  by (simp add: MAX_ATTEMPTS_def js_or_truthy_not_NaN)

lemma number_of_1: "number_of 1 = Fin (double_of 1)" "val (double_of 1) = 1"
  by (simp_all add: number_eval)

lemma num_sub_1_not_NaN [simp]: "a \<noteq> NaN \<Longrightarrow> num_sub a (number_of 1) \<noteq> NaN"
  by (cases a) (simp_all add: number_of_1)

lemma num_less_not_ge: "num_less a b \<Longrightarrow> \<not> num_ge a b"
  by (cases a; cases b) auto

lemma not_ge_less: "\<not> num_ge a b \<Longrightarrow> a \<noteq> NaN \<Longrightarrow> b \<noteq> NaN \<Longrightarrow> num_less a b"
  by (cases a; cases b) auto

lemma num_ge_not_less: "num_ge a b \<Longrightarrow> \<not> num_less a b"
  by (cases a; cases b) auto

section \<open>The jitter flag\<close>

lemma RANDOM_DELAY_True: "RANDOM_DELAY opts"
  by (simp add: RANDOM_DELAY_def js_or_def split: option.split)

lemma delayAmount_randomDelay:
  "delayAmount (opts\<lparr>randomDelay := b\<rparr>) r op = delayAmount opts r op"
  by (simp add: delayAmount_def RANDOM_DELAY_True previousDelay_def MIN_DELAY_def MAX_DELAY_def)

lemma retryOperation_randomDelay:
  "retryOperation (opts\<lparr>randomDelay := b\<rparr>) r op = retryOperation opts r op"
  by (simp add: retryOperation_def delayAmount_randomDelay)

lemma nextRetryOperation_randomDelay:
  "nextRetryOperation (opts\<lparr>randomDelay := b\<rparr>) rand st op = nextRetryOperation opts rand st op"
  by (simp add: nextRetryOperation_def retryOperation_randomDelay delayAmount_randomDelay)

lemma result_filter_randomDelay:
  "result_filter (opts\<lparr>randomDelay := b\<rparr>) rand st res = result_filter opts rand st res"
proof -
  have a: "retryIf (opts\<lparr>randomDelay := b\<rparr>) = retryIf opts"
    by (simp add: retryIf_def)
  have c: "MAX_ATTEMPTS (opts\<lparr>randomDelay := b\<rparr>) = MAX_ATTEMPTS opts"
    by (simp add: MAX_ATTEMPTS_def)
  show ?thesis
    unfolding result_filter_def a c nextRetryOperation_randomDelay ..
qed

lemma step_randomDelay:
  "step (opts\<lparr>randomDelay := b\<rparr>) rand st ev = step opts rand st ev"
  by (cases ev) (simp_all add: result_filter_randomDelay)

lemma run_randomDelay:
  "run (opts\<lparr>randomDelay := b\<rparr>) rand st evs = run opts rand st evs"
  by (induction evs arbitrary: st) (simp_all add: step_randomDelay)

text \<open>
  C2. \<^verbatim>\<open>RANDOM_DELAY = randomDelay || true\<close> holds for every configuration. The scaling
  test of the backoff path therefore reduces to the comparison with \<^verbatim>\<open>MAX_DELAY\<close>
  whatever the option is set to, and an exchange built with \<^verbatim>\<open>randomDelay: false\<close>
  behaves on every sequence of events exactly as one built without the option: no value
  of the option switches the jitter off.
\<close>

theorem C2_jitter_always_enabled:
  "RANDOM_DELAY opts
   \<and> RANDOM_DELAY (opts\<lparr>randomDelay := Some False\<rparr>) = RANDOM_DELAY (opts\<lparr>randomDelay := None\<rparr>)
   \<and> delayAmount (opts\<lparr>randomDelay := b\<rparr>) r op =
       (if num_less (num_mul (previousDelay opts op) (backoffFactor r)) (MAX_DELAY opts)
        then num_mul (previousDelay opts op) (backoffFactor r) else previousDelay opts op)
   \<and> run (opts\<lparr>randomDelay := Some False\<rparr>) rand st evs =
       run (opts\<lparr>randomDelay := None\<rparr>) rand st evs"
  by (simp add: RANDOM_DELAY_True run_randomDelay delayAmount_randomDelay)
    (simp add: delayAmount_def RANDOM_DELAY_True)

section \<open>Results that pass through\<close>

text \<open>
  C8. A result that carries no error, and a result whose error fails the retry
  predicate, is emitted as it is: the step emits exactly that result, dispatches
  nothing and leaves the state alone, whatever \<^verbatim>\<open>retryCount\<close> the context of its
  operation holds.
\<close>

theorem C8_pass_through:
  assumes "error res = None \<or> (\<exists>e. error res = Some e \<and> \<not> retryIf opts e)"
  shows "step opts rand st (Response res) = (st, [Emit res])"
  using assms by (auto simp: result_filter_def)

theorem C8_pass_through_witness:
  "error (success (retried 5 4000 (queryOp 1))) = None
   \<and> step noOptions (draw 0) init (Response (success (retried 5 4000 (queryOp 1))))
       = (init, [Emit (success (retried 5 4000 (queryOp 1)))])
   \<and> \<not> retryIf noOptions \<lparr>networkError = None, graphQLErrors = [''denied'']\<rparr>
   \<and> step noOptions (draw 0) init (Response (remoteFailure (retried 5 4000 (queryOp 1))))
       = (init, [Emit (remoteFailure (retried 5 4000 (queryOp 1)))])"
  using C8_pass_through [of "success (retried 5 4000 (queryOp 1))" noOptions "draw 0" init]
    C8_pass_through [of "remoteFailure (retried 5 4000 (queryOp 1))" noOptions "draw 0" init]
  by (simp add: sample_defs config_defs)

section \<open>The steps of the result filter\<close>

lemma step_Response_retry:
  assumes "error res = Some e" and "retryIf opts e"
    and "num_less (attempts (operation res)) (num_sub (MAX_ATTEMPTS opts) (number_of 1))"
  shows "step opts rand st (Response res) = nextRetryOperation opts rand st (operation res)"
  using assms(1,2) num_less_not_ge [OF assms(3)]
  by (simp add: result_filter_def split: prod.split)


lemma nextRetryOperation_pending:
  "pending (fst (nextRetryOperation opts rand st op)) =
     pending st @ [\<lparr>timer = nextTimer st, watchKey = key op,
                    held = retryOperation opts (rand (drawn st)) op\<rparr>]"
  "nextTimer (fst (nextRetryOperation opts rand st op)) = Suc (nextTimer st)"
  by (simp_all add: nextRetryOperation_def Let_def)

lemma result_filter_cases:
  "result_filter opts rand st res = (True, st, [])
   \<or> result_filter opts rand st res =
        (True, st, [DispatchDebug (retryExhausted (operation res))])
   \<or> (result_filter opts rand st res =
        (False, nextRetryOperation opts rand st (operation res))
      \<and> num_less (attempts (operation res)) (num_sub (MAX_ATTEMPTS opts) (number_of 1)))"
  by (auto simp: result_filter_def not_ge_less split: option.split prod.split)

lemma step_Response_cases:
  "step opts rand st (Response res) = (st, [Emit res])
   \<or> step opts rand st (Response res) =
        (st, [DispatchDebug (retryExhausted (operation res)), Emit res])
   \<or> (step opts rand st (Response res) = nextRetryOperation opts rand st (operation res)
      \<and> num_less (attempts (operation res)) (num_sub (MAX_ATTEMPTS opts) (number_of 1)))"
  using result_filter_cases [of opts rand st res]
  by (auto split: prod.split)

lemma emit_only_for_response:
  "Emit r \<in> set (snd (step opts rand st ev)) \<Longrightarrow> ev = Response r"
proof (cases ev)
  case (Response res)
  assume "Emit r \<in> set (snd (step opts rand st ev))"
  with Response step_Response_cases [of opts rand st res] show ?thesis
    by (auto simp: nextRetryOperation_def Let_def)
qed (auto split: option.splits)

lemma run_Cons:
  "fst (run opts rand st (ev # evs)) = fst (run opts rand (fst (step opts rand st ev)) evs)"
  "snd (run opts rand st (ev # evs)) =
     snd (step opts rand st ev) @ snd (run opts rand (fst (step opts rand st ev)) evs)"
  by (simp_all split: prod.split)

lemma run_emit_only_for_response:
  "Emit r \<in> set (snd (run opts rand st evs)) \<Longrightarrow> Response r \<in> set evs"
proof (induction evs arbitrary: st)
  case Nil
  then show ?case by simp
next
  case (Cons ev evs)
  from Cons.prems have "Emit r \<in> set (snd (step opts rand st ev))
      \<or> Emit r \<in> set (snd (run opts rand (fst (step opts rand st ev)) evs))"
    by (simp add: run_Cons del: run.simps(2))
  then show ?case
    using emit_only_for_response [of r opts rand st ev] Cons.IH by auto
qed

section \<open>Timers of waiting retries\<close>

lemma step_Response_state:
  "fst (step opts rand st (Response res)) = st
   \<or> fst (step opts rand st (Response res)) =
        st\<lparr>pending := pending st @
               [\<lparr>timer = nextTimer st, watchKey = key (operation res),
                 held = retryOperation opts (rand (drawn st)) (operation res)\<rparr>],
            nextTimer := Suc (nextTimer st), drawn := Suc (drawn st)\<rparr>"
  using step_Response_cases [of opts rand st res]
  by (auto simp: nextRetryOperation_def Let_def simp del: step.simps)

lemma retryOperation_key [simp]:
  "key (retryOperation opts r op) = key op"
  "operationName (retryOperation opts r op) = operationName op"
  by (simp_all add: retryOperation_def)

lemma step_well_timed:
  assumes "well_timed st"
  shows "well_timed (fst (step opts rand st ev))"
proof (cases ev)
  case (Inbound op)
  with assms show ?thesis by (auto simp: well_timed_def distinct_map_filter)
next
  case (Response res)
  from assms have "well_timed
     (st\<lparr>pending := pending st @
               [\<lparr>timer = nextTimer st, watchKey = key (operation res),
                 held = retryOperation opts (rand (drawn st)) (operation res)\<rparr>],
            nextTimer := Suc (nextTimer st), drawn := Suc (drawn st)\<rparr>)"
    by (fastforce simp: well_timed_def)
  with assms Response step_Response_state [of opts rand st res] show ?thesis
    by (auto simp del: step.simps)
next
  case (Elapsed i)
  with assms show ?thesis
    by (auto simp: well_timed_def distinct_map_filter split: option.split)
qed

lemma run_well_timed: "well_timed st \<Longrightarrow> well_timed (fst (run opts rand st evs))"
  by (induction evs arbitrary: st) (simp_all add: run_Cons step_well_timed del: run.simps(2))

lemma init_well_timed: "well_timed init"
  by (simp add: well_timed_def init_def)

lemma step_stays_cancelled:
  assumes "i < nextTimer st" and "i \<notin> timer ` set (pending st)"
  shows "i < nextTimer (fst (step opts rand st ev))
       \<and> i \<notin> timer ` set (pending (fst (step opts rand st ev)))"
proof (cases ev)
  case (Response res)
  with assms step_Response_state [of opts rand st res] show ?thesis
    by (auto simp del: step.simps)
qed (use assms in \<open>auto split: option.split\<close>)

lemma run_stays_cancelled:
  "i < nextTimer st \<Longrightarrow> i \<notin> timer ` set (pending st)
   \<Longrightarrow> i < nextTimer (fst (run opts rand st evs))
       \<and> i \<notin> timer ` set (pending (fst (run opts rand st evs)))"
proof (induction evs arbitrary: st)
  case Nil
  then show ?case by simp
next
  case (Cons ev evs)
  from step_stays_cancelled [OF Cons.prems] Cons.IH show ?case
    by (simp add: run_Cons del: run.simps(2))
qed

lemma Elapsed_noop:
  "i \<notin> timer ` set (pending st) \<Longrightarrow> step opts rand st (Elapsed i) = (st, [])"
proof -
  assume "i \<notin> timer ` set (pending st)"
  then have "find (\<lambda>p. timer p = i) (pending st) = None"
    by (auto simp: find_None_iff)
  then show ?thesis by simp
qed




section \<open>The bound on retry counts\<close>

lemma retryOperation_retryCount [simp]:
  "retryCount (ctx (retryOperation opts r op)) = Some (num_add (attempts op) (number_of 1))"
  "retryDelay (ctx (retryOperation opts r op)) = Some (delayAmount opts r op)"
  by (simp_all add: retryOperation_def)







section \<open>Integers in double arithmetic\<close>

lemma number_of_fin:
  assumes "\<bar>rnd x\<bar> < 2 ^ 1024"
  shows "number_of x = Fin (double_of x)" and "val (double_of x) = rnd x"
  using assms by (simp_all add: number_of_def val_double_of finite_double_def)

lemma number_of_int:
  assumes "\<bar>k\<bar> \<le> 2 ^ 53"
  shows "\<exists>c. number_of (of_int k) = Fin c \<and> val c = of_int k"
proof -
  from assms have r: "rnd (of_int k) = of_int k" by (rule rnd_of_int)
  from assms have "(of_int \<bar>k\<bar> :: rat) \<le> 2 ^ 53"
    by (metis of_int_le_iff of_int_numeral of_int_power)
  then have "\<bar>of_int k :: rat\<bar> < 2 ^ 1024" by simp
  with r show ?thesis by (simp add: number_of_def val_double_of finite_double_def)
qed

lemma attempts_of_int:
  assumes "retryCount (ctx op) = Some (Fin c)" and "val c = of_int n"
  shows "\<exists>a. attempts op = Fin a \<and> val a = of_int n"
proof (cases "n = 0")
  case True
  with assms show ?thesis
    using number_of_int [of 0] by (auto simp: attempts_def js_or_def)
next
  case False
  with assms show ?thesis by (simp add: attempts_def js_or_def)
qed

lemma num_add_1_int:
  assumes "val a = of_int n" and "\<bar>n + 1\<bar> \<le> 2 ^ 53"
  shows "\<exists>c. num_add (Fin a) (number_of 1) = Fin c \<and> val c = of_int (n + 1)"
  using number_of_int [OF assms(2)] assms(1) by (simp add: number_of_1)



lemma rnd_beyond_2_53:
  "rnd 9007199254740993 = 9007199254740992"
  "rnd 18014398509481984 = 18014398509481984"
  "rnd 18014398509481983 = 18014398509481984"
  by code_simp+

section \<open>Retry cycles\<close>

text \<open>
  C3, as stated, fails where double addition is not exact. The result below passes the
  retry predicate and its operation has \<^verbatim>\<open>retryCount\<close> \<open>2 ^ 53\<close>, below
  \<^verbatim>\<open>MAX_ATTEMPTS - 1\<close> for \<^verbatim>\<open>maxNumberAttempts\<close> \<open>2 ^ 54\<close>. The operation that is
  re-submitted carries the same \<^verbatim>\<open>retryCount\<close> \<open>2 ^ 53\<close>, not that count plus 1: the sum
  \<open>2 ^ 53 + 1\<close> rounds back to \<open>2 ^ 53\<close>.
\<close>

theorem C3_count_unchanged_at_2_53:
  "error (networkFailure (retried (2 ^ 53) 2000 (queryOp 1))) =
     Some \<lparr>networkError = Some ''offline'', graphQLErrors = []\<rparr>
   \<and> retryIf (attemptsOptions (2 ^ 54)) \<lparr>networkError = Some ''offline'', graphQLErrors = []\<rparr>
   \<and> num_less (attempts (retried (2 ^ 53) 2000 (queryOp 1)))
        (num_sub (MAX_ATTEMPTS (attemptsOptions (2 ^ 54))) (number_of 1))
   \<and> retryCount (ctx (retried (2 ^ 53) 2000 (queryOp 1))) = Some (Fin (double_of (2 ^ 53)))
   \<and> val (double_of (2 ^ 53)) = 2 ^ 53
   \<and> step (attemptsOptions (2 ^ 54)) (draw (1 / 2)) init
        (Response (networkFailure (retried (2 ^ 53) 2000 (queryOp 1)))) =
       (\<lparr>pending = [\<lparr>timer = 0, watchKey = 1, held = retried (2 ^ 53) 4000 (queryOp 1)\<rparr>],
         nextTimer = 1, drawn = 1\<rparr>,
        [DispatchDebug (retryAttempt (retried (2 ^ 53) 2000 (queryOp 1))
                          (Fin (double_of (2 ^ 53)))),
         SetTimeout 0 (number_of 4000)])
   \<and> retryCount (ctx (retried (2 ^ 53) 4000 (queryOp 1))) = Some (Fin (double_of (2 ^ 53)))"
  by (simp add: sample_defs config_defs backoff_defs exchange_defs number_eval rnd_beyond_2_53)

text \<open>
  C3, amended. \<^verbatim>\<open>MAX_ATTEMPTS\<close> is the option \<^verbatim>\<open>maxNumberAttempts\<close>, or 2 when the option
  is unset or falsy. A result whose error passes the retry predicate and whose operation
  has fewer than \<^verbatim>\<open>MAX_ATTEMPTS - 1\<close> retries behind it (\<^verbatim>\<open>retryCount\<close>, 0 if absent) is
  dropped by the filter: the step emits nothing, dispatches \<^verbatim>\<open>retryAttempt\<close>, starts one
  timer and adds exactly one waiting retry. The operation it holds is the failed one with
  a new \<^verbatim>\<open>retryCount\<close>: 1 when the failed operation had none, and otherwise the double sum
  of its truthy \<^verbatim>\<open>retryCount\<close> and 1, which is that count plus 1 whenever the count is an
  integer of magnitude below \<open>2 ^ 53\<close>. Whatever happens afterwards, the dropped result is
  not emitted unless \<^verbatim>\<open>forward\<close> pushes the same result again.
\<close>

theorem C3_retry_cycle:
  assumes "error res = Some e" and "retryIf opts e"
    and "num_less (attempts (operation res)) (num_sub (MAX_ATTEMPTS opts) (number_of 1))"
  shows "step opts rand st (Response res) =
           (st\<lparr>pending := pending st @
                  [\<lparr>timer = nextTimer st, watchKey = key (operation res),
                    held = retryOperation opts (rand (drawn st)) (operation res)\<rparr>],
               nextTimer := Suc (nextTimer st), drawn := Suc (drawn st)\<rparr>,
            [DispatchDebug (retryAttempt (operation res)
                              (num_add (attempts (operation res)) (number_of 1))),
             SetTimeout (nextTimer st) (delayAmount opts (rand (drawn st)) (operation res))])
       \<and> (retryCount (ctx (operation res)) = None
             \<longrightarrow> retryCount (ctx (retryOperation opts (rand (drawn st)) (operation res))) =
                   Some (number_of 1))
       \<and> (\<forall>c. retryCount (ctx (operation res)) = Some c \<and> truthy c
             \<longrightarrow> retryCount (ctx (retryOperation opts (rand (drawn st)) (operation res))) =
                   Some (num_add c (number_of 1)))
       \<and> (\<forall>c n. retryCount (ctx (operation res)) = Some (Fin c) \<and> val c = of_int n
                 \<and> \<bar>n\<bar> < 2 ^ 53
             \<longrightarrow> (\<exists>c'. retryCount (ctx (retryOperation opts (rand (drawn st)) (operation res))) =
                         Some (Fin c')
                      \<and> val c' = of_int (n + 1)))
       \<and> key (retryOperation opts (rand (drawn st)) (operation res)) = key (operation res)
       \<and> operationName (retryOperation opts (rand (drawn st)) (operation res)) =
           operationName (operation res)
       \<and> (\<forall>evs. Response res \<notin> set evs
             \<longrightarrow> Emit res \<notin> set (snd (run opts rand st (Response res # evs))))"
proof -
  let ?op = "operation res"
  have s: "step opts rand st (Response res) = nextRetryOperation opts rand st ?op"
    using assms by (rule step_Response_retry)
  have none: "retryCount (ctx ?op) = None
      \<longrightarrow> retryCount (ctx (retryOperation opts (rand (drawn st)) ?op)) = Some (number_of 1)"
  proof
    assume "retryCount (ctx ?op) = None"
    then have "attempts ?op = number_of 0" by (simp add: attempts_def js_or_def)
    then show "retryCount (ctx (retryOperation opts (rand (drawn st)) ?op)) = Some (number_of 1)"
      by (simp add: number_eval)
  qed
  have some: "\<forall>c. retryCount (ctx ?op) = Some c \<and> truthy c
      \<longrightarrow> retryCount (ctx (retryOperation opts (rand (drawn st)) ?op)) =
            Some (num_add c (number_of 1))"
    by (simp add: attempts_def js_or_def)
  have int: "\<forall>c n. retryCount (ctx ?op) = Some (Fin c) \<and> val c = of_int n \<and> \<bar>n\<bar> < 2 ^ 53
      \<longrightarrow> (\<exists>c'. retryCount (ctx (retryOperation opts (rand (drawn st)) ?op)) = Some (Fin c')
               \<and> val c' = of_int (n + 1))"
  proof (intro allI impI, elim conjE)
    fix c n
    assume c: "retryCount (ctx ?op) = Some (Fin c)" "val c = of_int n" and n: "\<bar>n\<bar> < 2 ^ 53"
    from attempts_of_int [OF c] obtain a
      where a: "attempts ?op = Fin a" "val a = of_int n" by blast
    from n have "\<bar>n + 1\<bar> \<le> 2 ^ 53" by simp
    from num_add_1_int [OF a(2) this] a(1)
    show "\<exists>c'. retryCount (ctx (retryOperation opts (rand (drawn st)) ?op)) = Some (Fin c')
               \<and> val c' = of_int (n + 1)"
      by simp
  qed
  have emit: "\<forall>evs. Response res \<notin> set evs
      \<longrightarrow> Emit res \<notin> set (snd (run opts rand st (Response res # evs)))"
  proof (intro allI impI)
    fix evs
    assume "Response res \<notin> set evs"
    then show "Emit res \<notin> set (snd (run opts rand st (Response res # evs)))"
      using run_emit_only_for_response [of res opts rand _ evs]
      by (auto simp: run_Cons s nextRetryOperation_def Let_def simp del: run.simps(2) step.simps)
  qed
  have eq: "step opts rand st (Response res) =
           (st\<lparr>pending := pending st @
                  [\<lparr>timer = nextTimer st, watchKey = key ?op,
                    held = retryOperation opts (rand (drawn st)) ?op\<rparr>],
               nextTimer := Suc (nextTimer st), drawn := Suc (drawn st)\<rparr>,
            [DispatchDebug (retryAttempt ?op (num_add (attempts ?op) (number_of 1))),
             SetTimeout (nextTimer st) (delayAmount opts (rand (drawn st)) ?op)])"
    by (simp add: s nextRetryOperation_def Let_def del: step.simps)
  have k: "key (retryOperation opts (rand (drawn st)) ?op) = key ?op"
    "operationName (retryOperation opts (rand (drawn st)) ?op) = operationName ?op"
    by simp_all
  from eq none some int k emit show ?thesis
    by (intro conjI)
qed

theorem C3_retry_cycle_witness:
  "error (networkFailure (retried 1 2000 (queryOp 1))) =
     Some \<lparr>networkError = Some ''offline'', graphQLErrors = []\<rparr>
   \<and> retryIf (attemptsOptions 3) \<lparr>networkError = Some ''offline'', graphQLErrors = []\<rparr>
   \<and> num_less (attempts (operation (networkFailure (retried 1 2000 (queryOp 1)))))
        (num_sub (MAX_ATTEMPTS (attemptsOptions 3)) (number_of 1))
   \<and> retryCount (ctx (operation (networkFailure (retried 1 2000 (queryOp 1))))) =
       Some (Fin (double_of 1))
   \<and> val (double_of 1) = of_int 1 \<and> \<bar>1 :: int\<bar> < 2 ^ 53 \<and> truthy (Fin (double_of 1))
   \<and> step (attemptsOptions 3) (draw (1 / 2)) init
        (Response (networkFailure (retried 1 2000 (queryOp 1)))) =
       (\<lparr>pending = [\<lparr>timer = 0, watchKey = 1, held = retried 2 4000 (queryOp 1)\<rparr>],
         nextTimer = 1, drawn = 1\<rparr>,
        [DispatchDebug (retryAttempt (retried 1 2000 (queryOp 1)) (number_of 2)),
         SetTimeout 0 (number_of 4000)])
   \<and> retryCount (ctx (retried 2 4000 (queryOp 1))) = Some (Fin (double_of 2))
   \<and> val (double_of 2) = of_int (1 + 1)
   \<and> Emit (networkFailure (retried 1 2000 (queryOp 1))) \<notin>
       set (snd (run (attemptsOptions 3) (draw (1 / 2)) init
                  [Response (networkFailure (retried 1 2000 (queryOp 1))), Elapsed 0]))
   \<and> retryCount (ctx (operation (networkFailure (queryOp 1)))) = None
   \<and> step noOptions (draw (1 / 2)) init (Response (networkFailure (queryOp 1))) =
       (\<lparr>pending = [\<lparr>timer = 0, watchKey = 1, held = retried 1 2000 (queryOp 1)\<rparr>],
         nextTimer = 1, drawn = 1\<rparr>,
        [DispatchDebug (retryAttempt (queryOp 1) (number_of 1)),
         SetTimeout 0 (number_of 2000)])"
  using C3_retry_cycle [of "networkFailure (retried 1 2000 (queryOp 1))"
      "\<lparr>networkError = Some ''offline'', graphQLErrors = []\<rparr>" "attemptsOptions 3"
      "draw (1 / 2)" init]
    C3_retry_cycle [of "networkFailure (queryOp 1)"
      "\<lparr>networkError = Some ''offline'', graphQLErrors = []\<rparr>" noOptions "draw (1 / 2)" init]
  by (simp add: sample_defs config_defs backoff_defs exchange_defs number_eval)


section \<open>Exhausted retries\<close>




section \<open>The race between the delay and a superseding operation\<close>

lemma cancelled_by_Inbound:
  assumes "well_timed st" and "p \<in> set (pending st)"
    and "operationName op = Query \<or> operationName op = Teardown"
    and "key op = key (held p)"
  shows "timer p < nextTimer (fst (step opts rand st (Inbound op)))
       \<and> timer p \<notin> timer ` set (pending (fst (step opts rand st (Inbound op))))"
proof -
  from assms(1,2) have k: "watchKey p = key (held p)" and lt: "timer p < nextTimer st"
    by (auto simp: well_timed_def)
  have "q = p" if "q \<in> set (pending st)" and "timer q = timer p" for q
    using that assms(1,2) by (auto simp: well_timed_def distinct_map inj_on_def)
  with k assms(3,4) have "timer p \<notin> timer ` set (filter (\<lambda>q. \<not> teardown_match (watchKey q) op) (pending st))"
    by (auto simp: teardown_match_def)
  with lt show ?thesis by simp
qed




text \<open>
  C10. In a reachable state, a retryable result with attempts left makes the step
  dispatch \<^verbatim>\<open>retryAttempt\<close> first and start the timer of the delay second. If an inbound
  query or teardown of the same key follows, the actions so far are the
  \<^verbatim>\<open>retryAttempt\<close> event, the timer and the forwarding of the inbound operation; the
  retry is discarded, and the firing of its timer forwards nothing at any later point.
  The event stays dispatched although the retry is never forwarded.
\<close>

theorem C10_attempt_dispatched_before_delay:
  assumes "st = fst (run opts rand init evs0)"
    and "error res = Some e" and "retryIf opts e"
    and "num_less (attempts (operation res)) (num_sub (MAX_ATTEMPTS opts) (number_of 1))"
    and "operationName op = Query \<or> operationName op = Teardown"
    and "key op = key (operation res)"
  shows "snd (step opts rand st (Response res)) =
           [DispatchDebug (retryAttempt (operation res)
                              (num_add (attempts (operation res)) (number_of 1))),
            SetTimeout (nextTimer st) (delayAmount opts (rand (drawn st)) (operation res))]
       \<and> snd (run opts rand st [Response res, Inbound op]) =
           [DispatchDebug (retryAttempt (operation res)
                              (num_add (attempts (operation res)) (number_of 1))),
            SetTimeout (nextTimer st) (delayAmount opts (rand (drawn st)) (operation res)),
            Forward op]
       \<and> (\<forall>evs. step opts rand (fst (run opts rand st (Response res # Inbound op # evs)))
                   (Elapsed (nextTimer st)) =
                 (fst (run opts rand st (Response res # Inbound op # evs)), []))"
proof -
  let ?p = "\<lparr>timer = nextTimer st, watchKey = key (operation res),
             held = retryOperation opts (rand (drawn st)) (operation res)\<rparr>"
  let ?st1 = "fst (step opts rand st (Response res))"
  have s: "step opts rand st (Response res) =
             nextRetryOperation opts rand st (operation res)"
    using assms(2-4) by (rule step_Response_retry)
  have acts: "snd (step opts rand st (Response res)) =
           [DispatchDebug (retryAttempt (operation res)
                              (num_add (attempts (operation res)) (number_of 1))),
            SetTimeout (nextTimer st) (delayAmount opts (rand (drawn st)) (operation res))]"
    by (simp add: s nextRetryOperation_def Let_def del: step.simps)
  have wt: "well_timed ?st1"
    using assms(1) by (simp add: step_well_timed run_well_timed init_well_timed del: step.simps)
  have mem: "?p \<in> set (pending ?st1)"
    by (simp add: s nextRetryOperation_pending del: step.simps)
  have "key op = key (held ?p)"
    using assms(6) by simp
  from cancelled_by_Inbound [OF wt mem assms(5) this, of opts rand]
  have c: "nextTimer st < nextTimer (fst (step opts rand ?st1 (Inbound op)))"
    "nextTimer st \<notin> timer ` set (pending (fst (step opts rand ?st1 (Inbound op))))"
    by simp_all
  have later: "step opts rand (fst (run opts rand st (Response res # Inbound op # evs)))
                   (Elapsed (nextTimer st)) =
                 (fst (run opts rand st (Response res # Inbound op # evs)), [])" for evs
  proof -
    from run_stays_cancelled [OF c]
    have "nextTimer st \<notin> timer ` set (pending (fst (run opts rand (fst (step opts rand ?st1 (Inbound op))) evs)))"
      by blast
    then show ?thesis
      by (simp add: run_Cons Elapsed_noop del: run.simps(2) step.simps)
  qed
  have two: "snd (run opts rand st [Response res, Inbound op]) =
           [DispatchDebug (retryAttempt (operation res)
                              (num_add (attempts (operation res)) (number_of 1))),
            SetTimeout (nextTimer st) (delayAmount opts (rand (drawn st)) (operation res)),
            Forward op]"
    by (simp add: run_Cons acts del: run.simps(2) step.simps(2))
  from acts two later show ?thesis
    by (intro conjI allI) (simp_all del: run.simps(2) step.simps)
qed

theorem C10_attempt_dispatched_before_delay_witness:
  "error (networkFailure (queryOp 1)) = Some \<lparr>networkError = Some ''offline'', graphQLErrors = []\<rparr>
   \<and> retryIf noOptions \<lparr>networkError = Some ''offline'', graphQLErrors = []\<rparr>
   \<and> num_less (attempts (operation (networkFailure (queryOp 1))))
        (num_sub (MAX_ATTEMPTS noOptions) (number_of 1))
   \<and> (operationName (teardownOp 1) = Query \<or> operationName (teardownOp 1) = Teardown)
   \<and> key (teardownOp 1) = key (operation (networkFailure (queryOp 1)))
   \<and> snd (run noOptions (draw (1 / 2)) init
            [Response (networkFailure (queryOp 1)), Inbound (teardownOp 1), Elapsed 0]) =
       [DispatchDebug (retryAttempt (queryOp 1) (number_of 1)), SetTimeout 0 (number_of 2000), Forward (teardownOp 1)]"
  using C10_attempt_dispatched_before_delay [where opts = noOptions and rand = "draw (1 / 2)"
      and ?evs0.0 = "[]" and st = init and res = "networkFailure (queryOp 1)"
      and e = "\<lparr>networkError = Some ''offline'', graphQLErrors = []\<rparr>" and op = "teardownOp 1"]
  by (simp add: sample_defs config_defs backoff_defs exchange_defs number_eval)

section \<open>The retry predicate\<close>

text \<open>
  C6. Without a \<^verbatim>\<open>retryIf\<close> option the retry predicate holds exactly for the errors that
  carry a network error. A result whose error has no network error, only remote error
  entries, is therefore emitted and not retried under the default; with a custom
  \<^verbatim>\<open>retryIf\<close> that accepts that error, and attempts left, the same result is dropped
  and a retry is started.
\<close>

theorem C6_retry_predicate:
  assumes "error res = Some err" and "networkError err = None" and "f err"
    and "num_less (attempts (operation res)) (num_sub (MAX_ATTEMPTS opts) (number_of 1))"
  shows "(\<forall>e. retryIf (opts\<lparr>retryIfOption := None\<rparr>) e = (networkError e \<noteq> None))
       \<and> step (opts\<lparr>retryIfOption := None\<rparr>) rand st (Response res) = (st, [Emit res])
       \<and> step (opts\<lparr>retryIfOption := Some f\<rparr>) rand st (Response res) =
           (st\<lparr>pending := pending st @
                  [\<lparr>timer = nextTimer st, watchKey = key (operation res),
                    held = retryOperation opts (rand (drawn st)) (operation res)\<rparr>],
               nextTimer := Suc (nextTimer st), drawn := Suc (drawn st)\<rparr>,
            [DispatchDebug (retryAttempt (operation res)
                              (num_add (attempts (operation res)) (number_of 1))),
             SetTimeout (nextTimer st) (delayAmount opts (rand (drawn st)) (operation res))])"
proof (intro conjI allI)
  fix e
  show "retryIf (opts\<lparr>retryIfOption := None\<rparr>) e = (networkError e \<noteq> None)"
    by (simp add: retryIf_def js_or_def)
next
  have "\<not> retryIf (opts\<lparr>retryIfOption := None\<rparr>) err"
    using assms(2) by (simp add: retryIf_def js_or_def)
  with assms(1) show "step (opts\<lparr>retryIfOption := None\<rparr>) rand st (Response res) = (st, [Emit res])"
    by (simp add: result_filter_def)
next
  let ?o = "opts\<lparr>retryIfOption := Some f\<rparr>"
  have a: "retryIf ?o err"
    using assms(3) by (simp add: retryIf_def js_or_def)
  have m: "MAX_ATTEMPTS ?o = MAX_ATTEMPTS opts"
    by (simp add: MAX_ATTEMPTS_def)
  have d: "delayAmount ?o r op = delayAmount opts r op" for r op
    by (simp add: delayAmount_def RANDOM_DELAY_def previousDelay_def MIN_DELAY_def MAX_DELAY_def)
  have "step ?o rand st (Response res) = nextRetryOperation ?o rand st (operation res)"
    using assms(1) a assms(4) by (intro step_Response_retry) (simp_all add: m)
  then show "step ?o rand st (Response res) =
           (st\<lparr>pending := pending st @
                  [\<lparr>timer = nextTimer st, watchKey = key (operation res),
                    held = retryOperation opts (rand (drawn st)) (operation res)\<rparr>],
               nextTimer := Suc (nextTimer st), drawn := Suc (drawn st)\<rparr>,
            [DispatchDebug (retryAttempt (operation res)
                              (num_add (attempts (operation res)) (number_of 1))),
             SetTimeout (nextTimer st) (delayAmount opts (rand (drawn st)) (operation res))])"
    by (simp add: nextRetryOperation_def Let_def retryOperation_def d del: step.simps)
qed

theorem C6_retry_predicate_witness:
  "error (remoteFailure (queryOp 1)) = Some \<lparr>networkError = None, graphQLErrors = [''denied'']\<rparr>
   \<and> networkError \<lparr>networkError = None, graphQLErrors = [''denied'']\<rparr> = None
   \<and> (\<lambda>e. graphQLErrors e \<noteq> []) \<lparr>networkError = None, graphQLErrors = [''denied'']\<rparr>
   \<and> num_less (attempts (operation (remoteFailure (queryOp 1))))
        (num_sub (MAX_ATTEMPTS noOptions) (number_of 1))
   \<and> step (noOptions\<lparr>retryIfOption := None\<rparr>) (draw (1 / 2)) init
        (Response (remoteFailure (queryOp 1))) = (init, [Emit (remoteFailure (queryOp 1))])
   \<and> step (noOptions\<lparr>retryIfOption := Some (\<lambda>e. graphQLErrors e \<noteq> [])\<rparr>) (draw (1 / 2)) init
        (Response (remoteFailure (queryOp 1))) =
       (\<lparr>pending = [\<lparr>timer = 0, watchKey = 1, held = retried 1 2000 (queryOp 1)\<rparr>],
         nextTimer = 1, drawn = 1\<rparr>,
        [DispatchDebug (retryAttempt (queryOp 1) (number_of 1)), SetTimeout 0 (number_of 2000)])"
  using C6_retry_predicate [where res = "remoteFailure (queryOp 1)"
      and err = "\<lparr>networkError = None, graphQLErrors = [''denied'']\<rparr>"
      and f = "\<lambda>e. graphQLErrors e \<noteq> []" and opts = noOptions
      and rand = "draw (1 / 2)" and st = init]
  by (simp add: sample_defs config_defs backoff_defs exchange_defs number_eval)


section \<open>The backoff factor and the scaling step\<close>

lemma number_of_3_2: "number_of (3 / 2) = Fin (double_of (3 / 2))" "val (double_of (3 / 2)) = 3 / 2"
  by (simp_all add: number_eval)

lemma backoffFactor_range:
  assumes "0 \<le> val r" and "val r < 1"
  shows "\<exists>f. backoffFactor r = Fin f \<and> 3 / 2 \<le> val f \<and> val f \<le> 5 / 2"
proof -
  let ?x = "val r + 3 / 2"
  from assms have x: "3 / 2 \<le> ?x" "?x \<le> 5 / 2" by simp_all
  then have small: "\<bar>?x\<bar> < 2 powi (- 1 + 53)" by simp
  have lo: "3 / 2 \<le> rnd ?x"
    using rnd_between(1) [of "3 / 2" 3 "- 1" ?x] small x(1)
    by (simp add: power_int_minus_divide)
  have hi: "rnd ?x \<le> 5 / 2"
    using rnd_between(2) [of "5 / 2" 5 "- 1" ?x] small x(2)
    by (simp add: power_int_minus_divide)
  from lo hi have fin: "\<bar>rnd ?x\<bar> < 2 ^ 1024" by simp
  have "backoffFactor r = number_of ?x"
    by (simp add: backoffFactor_def number_of_3_2)
  with number_of_fin [OF fin] lo hi show ?thesis by simp
qed

lemma rnd_top_draw:
  "rnd (4503599627370495 / 4503599627370496) = 4503599627370495 / 4503599627370496"
  "rnd (4503599627370495 / 4503599627370496 + 3 / 2) = 5 / 2"
  "rnd (11258999068426239 / 4503599627370496) = 5 / 2"
  by code_simp+

text \<open>
  C7, as stated, fails at the upper end of the range. The largest double below 1 is
  \<open>1 - 1 / 2 ^ 52\<close>, a value \<^verbatim>\<open>Math.random()\<close> can return; its sum with 1.5 is not a double
  and rounds to 2.5, so the backoff factor is 2.5 and not below it.
\<close>

theorem C7_factor_reaches_upper_end:
  "val (double_of (1 - 1 / 2 ^ 52)) = 1 - 1 / 2 ^ 52
   \<and> 0 \<le> val (double_of (1 - 1 / 2 ^ 52)) \<and> val (double_of (1 - 1 / 2 ^ 52)) < 1
   \<and> backoffFactor (double_of (1 - 1 / 2 ^ 52)) = Fin (double_of (5 / 2))
   \<and> val (double_of (5 / 2)) = 5 / 2
   \<and> \<not> val (double_of (5 / 2)) < 5 / 2"
  by (simp add: backoffFactor_def number_eval rnd_top_draw)

text \<open>
  C7, amended. For a draw \<open>r\<close> of \<^verbatim>\<open>Math.random()\<close>, a double with \<open>0 \<le> r < 1\<close>, the backoff
  factor, the double sum \<open>r + 1.5\<close>, is a finite double in the closed range from 1.5 to
  2.5. When the jitter flag holds and the double product of the delay and the factor is
  strictly below \<^verbatim>\<open>MAX_DELAY\<close>, the delay becomes that product; when the product is at
  least \<^verbatim>\<open>MAX_DELAY\<close>, the delay is left as it was.
\<close>

theorem C7_backoff_factor:
  assumes "0 \<le> val r" and "val r < 1"
  shows "(\<exists>f. backoffFactor r = Fin f \<and> 3 / 2 \<le> val f \<and> val f \<le> 5 / 2)
    \<and> (RANDOM_DELAY opts
         \<and> num_less (num_mul (previousDelay opts op) (backoffFactor r)) (MAX_DELAY opts)
         \<longrightarrow> delayAmount opts r op = num_mul (previousDelay opts op) (backoffFactor r))
    \<and> (num_ge (num_mul (previousDelay opts op) (backoffFactor r)) (MAX_DELAY opts)
         \<longrightarrow> delayAmount opts r op = previousDelay opts op)"
  using backoffFactor_range [OF assms]
  by (auto simp: delayAmount_def dest: num_ge_not_less)

text \<open>
  With the default bounds and the draw 0.5 the factor is 2: a first retry waits 2000 ms,
  and a retry whose previous delay was 10000 ms keeps it, since 20000 is not below 15000.
\<close>

theorem C7_backoff_factor_witness:
  "0 \<le> val (double_of (1 / 2)) \<and> val (double_of (1 / 2)) < 1
   \<and> backoffFactor (double_of (1 / 2)) = Fin (double_of 2)
   \<and> 3 / 2 \<le> val (double_of 2) \<and> val (double_of 2) \<le> 5 / 2
   \<and> RANDOM_DELAY noOptions
   \<and> num_less (num_mul (previousDelay noOptions (queryOp 1)) (backoffFactor (double_of (1 / 2))))
        (MAX_DELAY noOptions)
   \<and> delayAmount noOptions (double_of (1 / 2)) (queryOp 1) = number_of 2000
   \<and> num_ge (num_mul (previousDelay noOptions (retried 3 10000 (queryOp 1)))
               (backoffFactor (double_of (1 / 2))))
        (MAX_DELAY noOptions)
   \<and> delayAmount noOptions (double_of (1 / 2)) (retried 3 10000 (queryOp 1)) = number_of 10000"
  using C7_backoff_factor [of "double_of (1 / 2)" noOptions "queryOp 1"]
    C7_backoff_factor [of "double_of (1 / 2)" noOptions "retried 3 10000 (queryOp 1)"]
  by (simp add: sample_defs config_defs backoff_defs number_eval)

section \<open>The delay carried from one retry to the next\<close>

lemma double_magnitude:
  assumes "val x \<noteq> 0"
  shows "2 powi (- 1074) \<le> \<bar>val x\<bar>"
proof -
  have "val x \<in> range finite_double" by transfer simp
  then obtain y where y: "val x = finite_double y" by blast
  with assms have "val x = rnd y" "rnd y \<noteq> 0"
    by (auto simp: finite_double_def split: if_splits)
  then show ?thesis using rnd_magnitude [of y] by simp
qed

lemma num_mul_truthy:
  assumes "truthy p" and "1 \<le> val f"
  shows "truthy (num_mul p (Fin f))"
proof (cases p)
  case NaN
  with assms show ?thesis by simp
next
  case (Infinity s)
  with assms show ?thesis by auto
next
  case (Fin x)
  with assms have nz: "val x \<noteq> 0" by simp
  let ?y = "val x * val f"
  have "\<bar>val x\<bar> * 1 \<le> \<bar>val x\<bar> * \<bar>val f\<bar>"
    using assms(2) by (intro mult_left_mono) simp_all
  with double_magnitude [OF nz] have "2 powi (- 1074) \<le> \<bar>?y\<bar>"
    by (simp add: abs_mult)
  then have "rnd ?y \<noteq> 0" by (rule rnd_nonzero)
  with Fin show ?thesis
    by (simp add: number_of_def val_double_of finite_double_def)
qed

lemma MIN_DELAY_truthy: "truthy (MIN_DELAY opts)"
  by (simp add: MIN_DELAY_def js_or_def number_eval split: option.split)

lemma previousDelay_truthy: "truthy (previousDelay opts op)"
  by (simp add: previousDelay_def js_or_def MIN_DELAY_truthy split: option.split)

lemma delayAmount_truthy:
  assumes "0 \<le> val r" and "val r < 1"
  shows "truthy (delayAmount opts r op)"
proof -
  from backoffFactor_range [OF assms] obtain f
    where f: "backoffFactor r = Fin f" "3 / 2 \<le> val f" by blast
  then have "1 \<le> val f" by simp
  from num_mul_truthy [OF previousDelay_truthy this, of opts op] f(1)
  show ?thesis by (simp add: delayAmount_def previousDelay_truthy)
qed

text \<open>
  C9. The delay of a retry cycle starts from \<^verbatim>\<open>MIN_DELAY\<close> when the context of the
  operation has no \<^verbatim>\<open>retryDelay\<close>, and \<^verbatim>\<open>MIN_DELAY\<close> is \<^verbatim>\<open>initialDelayMs\<close> when that
  option is given and truthy. The delay a cycle computes is written into the context of
  the re-submitted operation as \<^verbatim>\<open>retryDelay\<close>, and the next cycle of that operation
  starts from it: its delay is the previous delay, scaled by the new factor when the
  product stays below \<^verbatim>\<open>MAX_DELAY\<close>. The draw \<open>r\<close> is one of \<^verbatim>\<open>Math.random()\<close>.
\<close>

theorem C9_delay_persists:
  assumes "0 \<le> val r" and "val r < 1"
  shows "(retryDelay (ctx op) = None \<longrightarrow> previousDelay opts op = MIN_DELAY opts)
       \<and> (\<forall>d. initialDelayMs opts = Some d \<and> truthy d \<longrightarrow> MIN_DELAY opts = d)
       \<and> retryDelay (ctx (retryOperation opts r op)) = Some (delayAmount opts r op)
       \<and> previousDelay opts (retryOperation opts r op) = delayAmount opts r op
       \<and> delayAmount opts r' (retryOperation opts r op) =
           (if num_less (num_mul (delayAmount opts r op) (backoffFactor r')) (MAX_DELAY opts)
            then num_mul (delayAmount opts r op) (backoffFactor r') else delayAmount opts r op)
       \<and> held (last (pending (fst (nextRetryOperation opts rand st op)))) =
           retryOperation opts (rand (drawn st)) op"
proof -
  have p: "previousDelay opts (retryOperation opts r op) = delayAmount opts r op"
    using delayAmount_truthy [OF assms, of opts op]
    by (simp add: previousDelay_def js_or_def)
  have "delayAmount opts r' (retryOperation opts r op) =
           (if num_less (num_mul (delayAmount opts r op) (backoffFactor r')) (MAX_DELAY opts)
            then num_mul (delayAmount opts r op) (backoffFactor r') else delayAmount opts r op)"
    unfolding delayAmount_def [of opts r' "retryOperation opts r op"] p
    by (simp add: RANDOM_DELAY_True)
  with p show ?thesis
    by (simp add: previousDelay_def MIN_DELAY_def js_or_def nextRetryOperation_pending)
qed

theorem C9_delay_persists_witness:
  "0 \<le> val (double_of (1 / 2)) \<and> val (double_of (1 / 2)) < 1
   \<and> retryDelay (ctx (queryOp 1)) = None
   \<and> previousDelay noOptions (queryOp 1) = number_of 1000
   \<and> initialDelayMs jitterOffOptions = Some (number_of 100) \<and> truthy (number_of 100)
   \<and> MIN_DELAY jitterOffOptions = number_of 100
   \<and> retryOperation noOptions (double_of (1 / 2)) (queryOp 1) = retried 1 2000 (queryOp 1)
   \<and> previousDelay noOptions (retried 1 2000 (queryOp 1)) = number_of 2000
   \<and> delayAmount noOptions (double_of (1 / 2)) (retried 1 2000 (queryOp 1)) = number_of 4000"
  using C9_delay_persists [of "double_of (1 / 2)" "queryOp 1" noOptions "double_of (1 / 2)"
      "draw (1 / 2)" init]
    C9_delay_persists [of "double_of (1 / 2)" "queryOp 1" jitterOffOptions "double_of (1 / 2)"
      "draw (1 / 2)" init]
  by (simp add: sample_defs config_defs backoff_defs exchange_defs number_eval)

section \<open>Three network failures with the jitter option switched off\<close>

text \<open>
  With \<^verbatim>\<open>initialDelayMs = 100\<close>, \<^verbatim>\<open>maxDelayMs = 1000\<close>, \<^verbatim>\<open>randomDelay = false\<close> and
  \<^verbatim>\<open>maxNumberAttempts = 3\<close>, the first delay of a fresh operation is scaled for every
  draw: it is at least 150 ms.
\<close>

lemma jitterOff_first_delay:
  assumes "0 \<le> val r" and "val r < 1"
  shows "\<exists>d. delayAmount jitterOffOptions r (queryOp k) = Fin d \<and> 150 \<le> val d \<and> val d \<le> 250"
proof -
  from backoffFactor_range [OF assms] obtain f
    where f: "backoffFactor r = Fin f" "3 / 2 \<le> val f" "val f \<le> 5 / 2" by blast
  let ?x = "100 * val f"
  from f have x: "150 \<le> ?x" "?x \<le> 250" by simp_all
  then have small: "\<bar>?x\<bar> < 2 powi (0 + 53)" by simp
  have lo: "150 \<le> rnd ?x"
    using rnd_between(1) [of 150 150 0 ?x] small x(1) by simp
  have hi: "rnd ?x \<le> 250"
    using rnd_between(2) [of 250 250 0 ?x] small x(2) by simp
  from lo hi have fin: "\<bar>rnd ?x\<bar> < 2 ^ 1024" by simp
  have prev: "previousDelay jitterOffOptions (queryOp k) = Fin (double_of 100)"
    by (simp add: sample_defs config_defs backoff_defs number_eval)
  have v: "val (double_of 100) = 100" by (simp add: number_eval)
  have maxd: "MAX_DELAY jitterOffOptions = Fin (double_of 1000)" "val (double_of 1000) = 1000"
    by (simp_all add: sample_defs config_defs number_eval)
  have "num_mul (Fin (double_of 100)) (Fin f) = number_of ?x"
    by (simp add: v)
  with number_of_fin [OF fin]
  have prod: "num_mul (Fin (double_of 100)) (Fin f) = Fin (double_of ?x)"
    "val (double_of ?x) = rnd ?x"
    by simp_all
  have scaled: "num_mul (previousDelay jitterOffOptions (queryOp k)) (backoffFactor r) =
      Fin (double_of ?x)"
    by (simp only: prev f(1) prod(1))
  from hi have "num_less (Fin (double_of ?x)) (MAX_DELAY jitterOffOptions)"
    by (simp add: prod(2) maxd)
  then have "delayAmount jitterOffOptions r (queryOp k) = Fin (double_of ?x)"
    unfolding delayAmount_def scaled by (simp add: RANDOM_DELAY_True)
  with lo hi prod(2) show ?thesis by simp
qed

text \<open>
  C1. The configuration above, the draws 0.5 and 0.5, and three network failures in a row
  for the operation of key 1. There are two retry cycles, the third failure is emitted
  after a \<^verbatim>\<open>retryExhausted\<close> event, and no retry is left waiting; but the two delays are
  200 ms and 400 ms, not 100 ms each: the option \<^verbatim>\<open>randomDelay = false\<close> does not switch
  the scaling off.
\<close>

theorem C1_three_failures_jitter_off:
  "run jitterOffOptions (draw (1 / 2)) init
     [Inbound (queryOp 1),
      Response (networkFailure (queryOp 1)),
      Elapsed 0,
      Response (networkFailure (retried 1 200 (queryOp 1))),
      Elapsed 1,
      Response (networkFailure (retried 2 400 (queryOp 1)))] =
   (\<lparr>pending = [], nextTimer = 2, drawn = 2\<rparr>,
    [Forward (queryOp 1),
     DispatchDebug (retryAttempt (queryOp 1) (number_of 1)),
     SetTimeout 0 (number_of 200),
     Forward (retried 1 200 (queryOp 1)),
     DispatchDebug (retryAttempt (retried 1 200 (queryOp 1)) (number_of 2)),
     SetTimeout 1 (number_of 400),
     Forward (retried 2 400 (queryOp 1)),
     DispatchDebug (retryExhausted (retried 2 400 (queryOp 1))),
     Emit (networkFailure (retried 2 400 (queryOp 1)))])"
  by (simp add: sample_defs config_defs backoff_defs exchange_defs number_eval)

end
